theory Spec2Isabelle
  imports Complex_Main "HOL-Library.AList"
begin

section \<open>Numbers and series\<close>

text \<open>
  The engine computes on pandas columns of float64. A finite float is read as the real
  number it denotes and arithmetic on finite values is exact (no rounding, no overflow,
  no signed zero); the undefined value NaN is \<open>None\<close>. A division is the one operation of
  the engine that leaves the finite values, so its result has the two infinities as well.
\<close>

type_synonym cell = "real option"

datatype xnum = Fin real | PInf | NInf | NaN

definition cmul :: "cell \<Rightarrow> cell \<Rightarrow> cell" where
  "cmul a b = (case a of None \<Rightarrow> None | Some x \<Rightarrow> (case b of None \<Rightarrow> None | Some y \<Rightarrow> Some (x * y)))"

definition csub :: "cell \<Rightarrow> cell \<Rightarrow> cell" where
  "csub a b = (case a of None \<Rightarrow> None | Some x \<Rightarrow> (case b of None \<Rightarrow> None | Some y \<Rightarrow> Some (x - y)))"

definition cadd :: "cell \<Rightarrow> cell \<Rightarrow> cell" where
  "cadd a b = (case a of None \<Rightarrow> None | Some x \<Rightarrow> (case b of None \<Rightarrow> None | Some y \<Rightarrow> Some (x + y)))"

definition cabs :: "cell \<Rightarrow> cell" where
  "cabs a = map_option abs a"

text \<open>Comparisons with NaN are false.\<close>

definition cell_lt :: "cell \<Rightarrow> cell \<Rightarrow> bool" where
  "cell_lt a b = (case a of None \<Rightarrow> False | Some x \<Rightarrow> (case b of None \<Rightarrow> False | Some y \<Rightarrow> x < y))"

definition cell_gt :: "cell \<Rightarrow> cell \<Rightarrow> bool" where
  "cell_gt a b = cell_lt b a"

definition cell_le :: "cell \<Rightarrow> cell \<Rightarrow> bool" where
  "cell_le a b = (case a of None \<Rightarrow> False | Some x \<Rightarrow> (case b of None \<Rightarrow> False | Some y \<Rightarrow> x \<le> y))"

text \<open>\<open>a / b\<close> on float64: a zero divisor gives an infinity or NaN, never an exception.\<close>

definition np_div :: "real \<Rightarrow> real \<Rightarrow> xnum" where
  "np_div a b = (if b \<noteq> 0 then Fin (a / b) else if 0 < a then PInf else if a < 0 then NInf else NaN)"

definition cell_div :: "cell \<Rightarrow> cell \<Rightarrow> xnum" where
  "cell_div a b = (case a of None \<Rightarrow> NaN | Some x \<Rightarrow> (case b of None \<Rightarrow> NaN | Some y \<Rightarrow> np_div x y))"

fun one_minus :: "xnum \<Rightarrow> xnum" where
  "one_minus (Fin x) = Fin (1 - x)"
| "one_minus PInf = NInf"
| "one_minus NInf = PInf"
| "one_minus NaN = NaN"





subsection \<open>Series operations of pandas\<close>

definition shift :: "cell list \<Rightarrow> cell list" where
  "shift xs = (if xs = [] then [] else None # butlast xs)"

definition diff :: "cell list \<Rightarrow> cell list" where
  "diff xs = map2 csub xs (shift xs)"

fun ffill_from :: "cell \<Rightarrow> cell list \<Rightarrow> cell list" where
  "ffill_from prev [] = []"
| "ffill_from prev (None # xs) = prev # ffill_from prev xs"
| "ffill_from prev (Some v # xs) = Some v # ffill_from (Some v) xs"

definition ffill :: "cell list \<Rightarrow> cell list" where
  "ffill xs = ffill_from None xs"

definition fillna :: "real \<Rightarrow> cell list \<Rightarrow> cell list" where
  "fillna v xs = map (\<lambda>x. case x of None \<Rightarrow> Some v | Some y \<Rightarrow> Some y) xs"

text \<open>\<open>cumsum\<close> skips NaN: the entry stays NaN and the running sum goes on.\<close>

fun cumsum_from :: "real \<Rightarrow> cell list \<Rightarrow> cell list" where
  "cumsum_from acc [] = []"
| "cumsum_from acc (None # xs) = None # cumsum_from acc xs"
| "cumsum_from acc (Some v # xs) = Some (acc + v) # cumsum_from (acc + v) xs"

definition cumsum :: "cell list \<Rightarrow> cell list" where
  "cumsum xs = cumsum_from 0 xs"

text \<open>\<open>np.maximum.accumulate\<close>: the running maximum; \<open>np.maximum\<close> propagates NaN.\<close>

definition cell_maximum :: "cell \<Rightarrow> cell \<Rightarrow> cell" where
  "cell_maximum a b = (case a of None \<Rightarrow> None | Some x \<Rightarrow> (case b of None \<Rightarrow> None | Some y \<Rightarrow> Some (max x y)))"

fun accumulate_from :: "cell \<Rightarrow> cell list \<Rightarrow> cell list" where
  "accumulate_from m [] = []"
| "accumulate_from m (x # xs) = cell_maximum m x # accumulate_from (cell_maximum m x) xs"

definition maximum_accumulate :: "cell list \<Rightarrow> cell list" where
  "maximum_accumulate xs = (case xs of [] \<Rightarrow> [] | x # ys \<Rightarrow> x # accumulate_from x ys)"



subsection \<open>Max drawdown (\<open>BacktestRun.run\<close>, the two lines on \<open>dd\<close>)\<close>

definition drawdown :: "cell list \<Rightarrow> xnum list" where
  "drawdown capital = map one_minus (map2 cell_div capital (maximum_accumulate capital))"


section \<open>Arrays and exceptions\<close>

text \<open>
  A numpy array is its shape and its items by index; \<open>a.T\<close> reverses the axes. A
  one-dimensional array of length \<open>n\<close> has shape \<open>[n]\<close>, a scalar has shape \<open>[]\<close>.
\<close>

record ndarray =
  shape :: "nat list"
  item :: "nat list \<Rightarrow> cell"

definition transpose_array :: "ndarray \<Rightarrow> ndarray" where
  "transpose_array a = \<lparr>shape = rev (shape a), item = (\<lambda>ix. item a (rev ix))\<rparr>"

definition array1 :: "cell list \<Rightarrow> ndarray" where
  "array1 xs = \<lparr>shape = [length xs],
                item = (\<lambda>ix. case ix of [i] \<Rightarrow> (if i < length xs then xs ! i else None) | _ \<Rightarrow> None)\<rparr>"

definition to_list :: "ndarray \<Rightarrow> cell list" where
  "to_list a = (case shape a of [n] \<Rightarrow> map (\<lambda>i. item a [i]) [0..<n] | _ \<Rightarrow> [])"

text \<open>
  The exceptions of the engine. An exception carries what its message interpolates:
  the shape error of \<open>ind\<close> reports the shape of the data, the indicator's name, the
  shape of the returned value (\<open>None\<close> when the value has no shape) and the value.
\<close>

datatype exn =
    IndexError
  | RuntimeError string string
  | IndicatorShapeError "nat list" string "nat list option" "ndarray option"
  | ArgmaxOfEmpty
  | FrameShapeError "nat list" nat
  | LengthMismatch nat nat
  | DuplicateLabels
  | AttributeError string
  | KeyError string
  | ZeroDivisionError
  | ColumnsError
  | MissingValuesError
  | IndexNotDatetime
  | StrategyError string

definition sbind :: "exn + 'a \<Rightarrow> ('a \<Rightarrow> exn + 'b) \<Rightarrow> exn + 'b" where
  "sbind m f = (case m of Inl e \<Rightarrow> Inl e | Inr x \<Rightarrow> f x)"

section \<open>The crossover predicate (\<open>StrategyBase.crossover\<close>)\<close>

text \<open>Python's \<open>xs[i]\<close>: a negative index counts from the end, out of range raises.\<close>

definition getitem :: "'a list \<Rightarrow> int \<Rightarrow> exn + 'a" where
  "getitem xs i =
     (if 0 \<le> i \<and> i < int (length xs) then Inr (xs ! nat i)
      else if i < 0 \<and> - int (length xs) \<le> i then Inr (xs ! nat (int (length xs) + i))
      else Inl IndexError)"

text \<open>
  The method returns \<open>True\<close> in its one \<open>if\<close> and falls off its end otherwise, which
  returns Python's \<open>None\<close>: the result \<open>Some True\<close> is \<open>True\<close> and \<open>None\<close> is \<open>None\<close>.
  The operands of \<open>and\<close> are evaluated from the left, the right one only when the left
  one holds.
\<close>

definition crossover :: "cell list \<Rightarrow> cell list \<Rightarrow> exn + bool option" where
  "crossover series1 series2 =
     (case getitem series1 (- 2) of Inl e \<Rightarrow> Inl e | Inr a2 \<Rightarrow>
      (case getitem series2 (- 2) of Inl e \<Rightarrow> Inl e | Inr b2 \<Rightarrow>
       if \<not> cell_lt a2 b2 then Inr None
       else (case getitem series1 (- 1) of Inl e \<Rightarrow> Inl e | Inr a1 \<Rightarrow>
             (case getitem series2 (- 1) of Inl e \<Rightarrow> Inl e | Inr b1 \<Rightarrow>
              if cell_gt a1 b1 then Inr (Some True) else Inr None))))"

definition long :: cell where
  "long = Some 1"

definition offset :: cell where
  "offset = Some 0"

definition short :: cell where
  "short = Some (- 1)"

section \<open>Tables\<close>

text \<open>
  A DataFrame is its index and its columns in order, each with its name. The index is a
  DatetimeIndex of timestamps (nanoseconds) or, after pandas has built one itself, a
  RangeIndex. A column is read by the first entry of its name.
\<close>

datatype index = DatetimeIndex "int list" | RangeIndex nat

datatype label = Timestamp int | Position nat

fun index_len :: "index \<Rightarrow> nat" where
  "index_len (DatetimeIndex ts) = length ts"
| "index_len (RangeIndex n) = n"

fun labels :: "index \<Rightarrow> label list" where
  "labels (DatetimeIndex ts) = map Timestamp ts"
| "labels (RangeIndex n) = map Position [0..<n]"

fun take_index :: "nat \<Rightarrow> index \<Rightarrow> index" where
  "take_index k (DatetimeIndex ts) = DatetimeIndex (take k ts)"
| "take_index k (RangeIndex n) = RangeIndex (min k n)"

datatype col = FloatCol "cell list" | BoolCol "bool list"

fun cells :: "col \<Rightarrow> cell list" where
  "cells (FloatCol xs) = xs"
| "cells (BoolCol bs) = map (\<lambda>b. Some (if b then 1 else 0)) bs"

fun take_col :: "nat \<Rightarrow> col \<Rightarrow> col" where
  "take_col k (FloatCol xs) = FloatCol (take k xs)"
| "take_col k (BoolCol bs) = BoolCol (take k bs)"

record frame =
  findex :: index
  cols :: "(string \<times> col) list"

definition nrows :: "frame \<Rightarrow> nat" where
  "nrows df = index_len (findex df)"

definition get_col :: "frame \<Rightarrow> string \<Rightarrow> col option" where
  "get_col df name = map_of (cols df) name"

text \<open>\<open>df[name] = column\<close>: an existing column is replaced in place, a new one is appended.\<close>

definition set_col :: "frame \<Rightarrow> string \<Rightarrow> col \<Rightarrow> frame" where
  "set_col df name c = df\<lparr>cols := AList.update name c (cols df)\<rparr>"

definition attr :: "frame \<Rightarrow> string \<Rightarrow> exn + cell list" where
  "attr df name = (case get_col df name of None \<Rightarrow> Inl (AttributeError name) | Some c \<Rightarrow> Inr (cells c))"

definition series :: "frame \<Rightarrow> string \<Rightarrow> exn + cell list" where
  "series df name = (case get_col df name of None \<Rightarrow> Inl (KeyError name) | Some c \<Rightarrow> Inr (cells c))"

text \<open>\<open>df.iloc[:k]\<close>: the first \<open>k\<close> rows.\<close>

definition iloc_upto :: "nat \<Rightarrow> frame \<Rightarrow> frame" where
  "iloc_upto k df = \<lparr>findex = take_index k (findex df), cols = map (\<lambda>(n, c). (n, take_col k c)) (cols df)\<rparr>"

text \<open>
  A statement that assigns into a table in place ends with an exception or without one,
  and leaves the table as it is at that moment.
\<close>

type_synonym update = "frame \<Rightarrow> exn option \<times> frame"

definition andthen :: "update \<Rightarrow> update \<Rightarrow> update" where
  "andthen f g df = (case f df of (Some e, df1) \<Rightarrow> (Some e, df1) | (None, df1) \<Rightarrow> g df1)"

text \<open>
  A table with no rows takes its index from the first non-empty value assigned to it:
  its columns are refilled with NaN along the new index.
\<close>

definition reindex_empty :: "index \<Rightarrow> frame \<Rightarrow> frame" where
  "reindex_empty idx df =
     \<lparr>findex = idx, cols = map (\<lambda>(n, c). (n, FloatCol (replicate (index_len idx) None))) (cols df)\<rparr>"

text \<open>\<open>df[name] = values\<close> for a list: the lengths must match.\<close>

definition assign_list :: "string \<Rightarrow> cell list \<Rightarrow> update" where
  "assign_list name vals df =
     (if nrows df = 0 \<and> vals \<noteq> []
      then (None, set_col (reindex_empty (RangeIndex (length vals)) df) name (FloatCol vals))
      else if length vals \<noteq> nrows df then (Some (LengthMismatch (length vals) (nrows df)), df)
      else (None, set_col df name (FloatCol vals)))"

text \<open>
  \<open>df[name] = s\<close> for a Series: taken as it is when the indexes are equal, aligned on
  the labels otherwise, which fails when the labels of the Series repeat.
\<close>

definition align :: "index \<Rightarrow> cell list \<Rightarrow> index \<Rightarrow> cell list" where
  "align idx vals target =
     map (\<lambda>l. case map_of (zip (labels idx) vals) l of None \<Rightarrow> None | Some v \<Rightarrow> v) (labels target)"

definition assign_series :: "string \<Rightarrow> index \<Rightarrow> cell list \<Rightarrow> update" where
  "assign_series name idx vals df =
     (if nrows df = 0 \<and> vals \<noteq> [] then (None, set_col (reindex_empty idx df) name (FloatCol vals))
      else if idx = findex df \<or> nrows df = 0 then (None, set_col df name (FloatCol vals))
      else if \<not> distinct (labels idx) then (Some DuplicateLabels, df)
      else (None, set_col df name (FloatCol (align idx vals (findex df)))))"

text \<open>\<open>df[name] = expression over the columns of df\<close>, one source line each.\<close>

type_synonym step = "string \<times> (frame \<Rightarrow> exn + col)"

fun run_steps :: "step list \<Rightarrow> update" where
  "run_steps [] df = (None, df)"
| "run_steps ((name, f) # rest) df =
     (case f df of Inl e \<Rightarrow> (Some e, df) | Inr c \<Rightarrow> run_steps rest (set_col df name c))"

section \<open>The indicator registry (\<open>StrategyBase.ind\<close>)\<close>

text \<open>
  What an indicator function returns: \<open>None\<close>; a DataFrame, given by its \<open>.values\<close>;
  anything \<open>np.asarray\<close> converts, given by the array; or an object on which
  \<open>np.asarray\<close> raises. The display name that \<open>ind\<close> derives from the function and its
  arguments is taken as given.
\<close>

datatype ind_value = VNone | VFrame ndarray | VArray ndarray | VOther

fun as_array :: "ind_value \<Rightarrow> ndarray option" where
  "as_array VNone = None"
| "as_array (VFrame a) = Some (transpose_array a)"
| "as_array (VArray a) = Some a"
| "as_array VOther = None"

text \<open>\<open>np.argmax\<close>: the first position of the maximum; it raises on an empty sequence.\<close>

fun argmax_from :: "nat \<Rightarrow> nat \<Rightarrow> nat \<Rightarrow> nat list \<Rightarrow> nat" where
  "argmax_from best bv i [] = best"
| "argmax_from best bv i (x # xs) =
     (if bv < x then argmax_from i x (Suc i) xs else argmax_from best bv (Suc i) xs)"

definition argmax :: "nat list \<Rightarrow> exn + nat" where
  "argmax xs = (case xs of [] \<Rightarrow> Inl ArgmaxOfEmpty | x # ys \<Rightarrow> Inr (argmax_from 0 x 1 ys))"

text \<open>
  \<open>pd.DataFrame(value, index=index, columns=[name])\<close>: a one-dimensional value of the
  length of the index, or a two-dimensional one of that many rows and one column.
\<close>

definition frame_of_array :: "ndarray \<Rightarrow> index \<Rightarrow> string \<Rightarrow> exn + frame" where
  "frame_of_array a idx name =
     (case shape a of
        [n] \<Rightarrow> if n = index_len idx
               then Inr \<lparr>findex = idx, cols = [(name, FloatCol (map (\<lambda>i. item a [i]) [0..<n]))]\<rparr>
               else Inl (FrameShapeError (shape a) (index_len idx))
      | [n, m] \<Rightarrow> if n = index_len idx \<and> m = 1
               then Inr \<lparr>findex = idx, cols = [(name, FloatCol (map (\<lambda>i. item a [i, 0]) [0..<n]))]\<rparr>
               else Inl (FrameShapeError (shape a) (index_len idx))
      | _ \<Rightarrow> Inl (FrameShapeError (shape a) (index_len idx)))"

text \<open>
  The part of a strategy object that the engine reads and writes: \<open>self._data\<close>,
  \<open>self._indicators\<close>, and the attributes \<open>attrs\<close> that the subclass keeps (its
  indicator arrays). \<open>self.__data\<close> is never rebound; \<open>ind\<close> reads its length only,
  the parameter \<open>full_len\<close>.
\<close>

record 'u strategy_state =
  data :: frame
  indicators :: "frame list"
  attrs :: 'u

text \<open>
  \<open>ind\<close>, with the outcome of \<open>func(*args, **kwargs)\<close> as its argument \<open>res\<close>
  (\<open>Inl\<close> the message of the exception the call raised). It returns the array, or
  raises, and the state it leaves.
\<close>

definition ind :: "nat \<Rightarrow> string \<Rightarrow> string + ind_value \<Rightarrow> 'u strategy_state
    \<Rightarrow> (exn + ndarray) \<times> 'u strategy_state" where
  "ind full_len name res s =
     (case res of
        Inl e \<Rightarrow> (Inl (RuntimeError name e), s)
      | Inr v \<Rightarrow>
         (case (case as_array v of
                  None \<Rightarrow> Inr None
                | Some a \<Rightarrow> sbind (argmax (shape a))
                             (\<lambda>k. Inr (Some (if k = 0 then transpose_array a else a)))) of
            Inl e \<Rightarrow> (Inl e, s)
          | Inr val \<Rightarrow>
             (case attr (data s) ''close'' of
                Inl e \<Rightarrow> (Inl e, s)
              | Inr close \<Rightarrow>
                 (case val of
                    None \<Rightarrow> (Inl (IndicatorShapeError [length close] name None None), s)
                  | Some a \<Rightarrow>
                     if last (shape a) \<noteq> length close
                     then (Inl (IndicatorShapeError [length close] name (Some (shape a)) (Some a)), s)
                     else if hd (shape a) = full_len
                     then (case frame_of_array a (findex (data s)) name of
                             Inl e \<Rightarrow> (Inl e, s)
                           | Inr f \<Rightarrow>
                              (Inr a, s\<lparr>indicators := indicators s @ [f],
                                        data := (data s)\<lparr>cols := cols (data s) @ cols f\<rparr>\<rparr>))
                     else (Inr a, s)))))"

section \<open>Strategies and the walk-forward signal engine (\<open>StrategyBase._sig\<close>)\<close>

text \<open>
  A method of a strategy subclass is a program over the interface of the base class: it
  returns, raises, reads the property \<open>self.data\<close>, or declares an indicator with
  \<open>self.ind\<close> and goes on with the array it gets. \<open>crossover\<close>, \<open>long\<close>, \<open>short\<close>
  and \<open>offset\<close> are pure and need no operation.
\<close>

datatype 'a prog =
    Return 'a
  | Raise exn
  | Data "frame \<Rightarrow> 'a prog"
  | Ind string "string + ind_value" "ndarray \<Rightarrow> 'a prog"

primrec exec :: "nat \<Rightarrow> 'a prog \<Rightarrow> 'u strategy_state \<Rightarrow> (exn + 'a) \<times> 'u strategy_state" where
  "exec full_len (Return x) s = (Inr x, s)"
| "exec full_len (Raise e) s = (Inl e, s)"
| "exec full_len (Data k) s = exec full_len (k (data s)) s"
| "exec full_len (Ind name res k) s =
     (case ind full_len name res s of
        (Inl e, s1) \<Rightarrow> (Inl e, s1)
      | (Inr a, s1) \<Rightarrow> exec full_len (k a) s1)"

text \<open>
  A strategy subclass: \<open>set_indicators\<close> and \<open>next\<close>, each from the attributes of the
  object to a program that gives the new attributes (and, for \<open>next\<close>, the action:
  \<open>None\<close> when the method returns nothing).
\<close>

record 'u strategy_class =
  class_name :: string
  set_indicators :: "'u \<Rightarrow> 'u prog"
  next' :: "'u \<Rightarrow> (cell \<times> 'u) prog"

text \<open>The body of the loop of \<open>_sig\<close> for the bars \<open>is\<close>, with \<open>d_f\<close> the copy of the data.\<close>

fun sig_loop :: "'u strategy_class \<Rightarrow> nat \<Rightarrow> frame \<Rightarrow> nat list \<Rightarrow> cell list \<Rightarrow> 'u strategy_state
    \<Rightarrow> (exn + cell list) \<times> 'u strategy_state" where
  "sig_loop C full_len d_f [] siglist s = (Inr siglist, s)"
| "sig_loop C full_len d_f (i # is) siglist s =
     (case exec full_len (set_indicators C (attrs s)) (s\<lparr>data := iloc_upto (i + 1) d_f\<rparr>) of
        (Inl e, s1) \<Rightarrow> (Inl e, s1)
      | (Inr u, s1) \<Rightarrow>
         (case exec full_len (next' C u) (s1\<lparr>attrs := u\<rparr>) of
            (Inl e, s2) \<Rightarrow> (Inl e, s2)
          | (Inr (a, u'), s2) \<Rightarrow> sig_loop C full_len d_f is (siglist @ [a]) (s2\<lparr>attrs := u'\<rparr>)))"

definition sig :: "'u strategy_class \<Rightarrow> nat \<Rightarrow> 'u strategy_state \<Rightarrow> (exn + cell list) \<times> 'u strategy_state" where
  "sig C full_len s = sig_loop C full_len (data s) [2..<nrows (data s)] [None, None] s"

section \<open>The broker (\<open>BacktestRun._broker\<close>)\<close>

record params =
  cash :: real
  size' :: real
  comm :: real
  amount :: real

definition times :: "cell list \<Rightarrow> real \<Rightarrow> cell list" where
  "times xs k = map (\<lambda>x. cmul x (Some k)) xs"

definition position :: "cell list \<Rightarrow> cell list" where
  "position signal = fillna 0 (shift (ffill signal))"


text \<open>The loop of \<open>_broker\<close> over the recorded indicators: \<open>self._data[df.columns] = df\<close>.\<close>

fun assign_columns :: "index \<Rightarrow> (string \<times> col) list \<Rightarrow> update" where
  "assign_columns idx [] df = (None, df)"
| "assign_columns idx ((name, c) # rest) df =
     andthen (assign_series name idx (cells c)) (assign_columns idx rest) df"

fun assign_indicators :: "frame list \<Rightarrow> update" where
  "assign_indicators [] df = (None, df)"
| "assign_indicators (f # fs) df =
     andthen (assign_columns (findex f) (cols f)) (assign_indicators fs) df"

text \<open>The columns of the ledger, as the lines of \<open>_broker\<close> compute them.\<close>

definition trading_pnl :: "params \<Rightarrow> cell list \<Rightarrow> cell list \<Rightarrow> cell list" where
  "trading_pnl p change pos = times (map2 cmul change pos) (size' p)"

definition fee :: "params \<Rightarrow> cell list \<Rightarrow> cell list \<Rightarrow> cell list" where
  "fee p close pos =
     map2 cmul (times (times (times close (size' p)) (amount p)) (comm p))
               (fillna 0 (map cabs (map2 csub pos (shift pos))))"

definition netpnl :: "cell list \<Rightarrow> cell list \<Rightarrow> cell list" where
  "netpnl tp f = map2 csub tp f"

definition capital :: "params \<Rightarrow> cell list \<Rightarrow> cell list" where
  "capital p cumpnl = map (\<lambda>x. cadd x (Some (cash p))) cumpnl"

definition outofmoney :: "params \<Rightarrow> cell list \<Rightarrow> cell list \<Rightarrow> cell list \<Rightarrow> bool list" where
  "outofmoney p cap close f =
     map2 (\<and>) (map2 cell_le (shift cap) (map2 cadd (times (times close (size' p)) (amount p)) f))
              (map (\<lambda>x. x \<noteq> Some 0) f)"

text \<open>
  The lines of \<open>_broker\<close> from \<open>pos\<close> to \<open>outofmoney\<close>, each reading the table. The
  second line on \<open>netpnl\<close> is \<open>self._data.netpnl.fillna(0, inplace=True)\<close>, which writes
  the filled column back into the table: the pandas that the code is written for (it
  calls \<open>fillna(method='ffill')\<close>) has no copy-on-write.
\<close>

definition ledger_steps :: "params \<Rightarrow> step list" where
  "ledger_steps p =
    [(''pos'', \<lambda>df. sbind (attr df ''signal'') (\<lambda>signal. Inr (FloatCol (position signal)))),
     (''trading_pnl'', \<lambda>df. sbind (attr df ''change'') (\<lambda>change. sbind (attr df ''pos'') (\<lambda>pos.
        Inr (FloatCol (trading_pnl p change pos))))),
     (''fee'', \<lambda>df. sbind (attr df ''close'') (\<lambda>close. sbind (series df ''pos'') (\<lambda>pos.
        Inr (FloatCol (fee p close pos))))),
     (''netpnl'', \<lambda>df. sbind (series df ''trading_pnl'') (\<lambda>tp. sbind (series df ''fee'') (\<lambda>f.
        Inr (FloatCol (netpnl tp f))))),
     (''netpnl'', \<lambda>df. sbind (attr df ''netpnl'') (\<lambda>np. Inr (FloatCol (fillna 0 np)))),
     (''cumpnl'', \<lambda>df. sbind (series df ''netpnl'') (\<lambda>np. Inr (FloatCol (cumsum np)))),
     (''capital'', \<lambda>df. sbind (series df ''cumpnl'') (\<lambda>cumpnl. Inr (FloatCol (capital p cumpnl)))),
     (''outofmoney'', \<lambda>df. sbind (attr df ''capital'') (\<lambda>cap. sbind (attr df ''close'') (\<lambda>close.
        sbind (attr df ''fee'') (\<lambda>f. Inr (BoolCol (outofmoney p cap close f))))))]"

text \<open>
  The settlement of a table for a given Action sequence and given recorded indicators:
  \<open>_broker\<close> with the result of \<open>self._strategy._sig()\<close> as the argument \<open>actions\<close>.
\<close>

definition settle_rest :: "params \<Rightarrow> cell list \<Rightarrow> frame list \<Rightarrow> update" where
  "settle_rest p actions inds =
     andthen (assign_list ''signal'' actions) (andthen (assign_indicators inds) (run_steps (ledger_steps p)))"


section \<open>Objects and the store\<close>




text \<open>\<open>data.sort_index()\<close>: a new table with the rows in the order of their timestamps.\<close>

fun permute_col :: "nat list \<Rightarrow> col \<Rightarrow> col" where
  "permute_col perm (FloatCol xs) = FloatCol (map (\<lambda>i. if i < length xs then xs ! i else None) perm)"
| "permute_col perm (BoolCol bs) = BoolCol (map (\<lambda>i. i < length bs \<and> bs ! i) perm)"

definition sort_index :: "int list \<Rightarrow> frame \<Rightarrow> frame" where
  "sort_index ts df =
     (let perm = sort_key (\<lambda>i. ts ! i) [0..<length ts]
      in \<lparr>findex = DatetimeIndex (map (\<lambda>i. ts ! i) perm),
          cols = map (\<lambda>(n, c). (n, permute_col perm c)) (cols df)\<rparr>)"







section \<open>The result summary (\<open>BacktestRun.run\<close>)\<close>



definition nanoseconds_per_day :: int where
  "nanoseconds_per_day = 86400000000000"



section \<open>A strategy\<close>

text \<open>
  A strategy in the manner of the repository's examples, to run the engine on: its two
  indicators are the close and the open of the visible data; it goes long when the close
  crosses over the open and short when the open crosses over the close.
\<close>

definition cross_step :: "cell list \<times> cell list \<Rightarrow> (cell \<times> cell list \<times> cell list) prog" where
  "cross_step u =
     (case crossover (fst u) (snd u) of
        Inl e \<Rightarrow> Raise e
      | Inr (Some True) \<Rightarrow> Return (long, u)
      | Inr _ \<Rightarrow>
         (case crossover (snd u) (fst u) of
            Inl e \<Rightarrow> Raise e
          | Inr (Some True) \<Rightarrow> Return (short, u)
          | Inr _ \<Rightarrow> Return (None, u)))"

definition declare_close_open :: "cell list \<times> cell list \<Rightarrow> (cell list \<times> cell list) prog" where
  "declare_close_open u =
     Data (\<lambda>d. case attr d ''close'' of Inl e \<Rightarrow> Raise e | Inr c \<Rightarrow>
       Ind ''close(df)'' (Inr (VArray (array1 c))) (\<lambda>a.
         Data (\<lambda>d. case attr d ''open'' of Inl e \<Rightarrow> Raise e | Inr opn \<Rightarrow>
           Ind ''open(df)'' (Inr (VArray (array1 opn))) (\<lambda>b. Return (to_list a, to_list b)))))"

definition CloseOverOpen :: "(cell list \<times> cell list) strategy_class" where
  "CloseOverOpen = \<lparr>class_name = ''CloseOverOpen'', set_indicators = declare_close_open, next' = cross_step\<rparr>"

definition day :: "int \<Rightarrow> int" where
  "day k = k * nanoseconds_per_day"

definition bars :: "real list \<Rightarrow> real list \<Rightarrow> frame" where
  "bars opens closes =
     \<lparr>findex = DatetimeIndex (map (\<lambda>k. day (int k)) [0..<length closes]),
      cols = [(''open'', FloatCol (map Some opens)), (''high'', FloatCol (map Some closes)),
              (''low'', FloatCol (map Some opens)), (''close'', FloatCol (map Some closes)),
              (''volume'', FloatCol (map (\<lambda>x. Some 1) closes))]\<rparr>"

section \<open>Notions for the proofs\<close>

text \<open>
  A settlement, when it succeeds, is a sequence of column assignments; \<open>upd_all\<close> applies
  such a sequence. The columns that the ledger is computed from are the \<open>ledger_inputs\<close>;
  an indicator whose display name is one of them would overwrite that column in the loop
  over the indicators, so the statements on the ledger ask the recorded indicators to be
  \<open>clear_of\<close> these names.
\<close>

definition upd_all :: "(string \<times> col) list \<Rightarrow> frame \<Rightarrow> frame" where
  "upd_all us df = foldl (\<lambda>d (k, c). set_col d k c) df us"










section \<open>Properties\<close>

subsection \<open>Crossover\<close>

lemma getitem_neg2: "getitem xs (- 2) = (if length xs < 2 then Inl IndexError else Inr (xs ! (length xs - 2)))"
  by (auto simp: getitem_def nat_diff_distrib' intro: arg_cong[where f="nth xs"])

lemma getitem_neg1: "getitem xs (- 1) = (if xs = [] then Inl IndexError else Inr (last xs))"
  by (cases xs rule: rev_cases) (auto simp: getitem_def nat_add_distrib nth_append)


text \<open>
  Claim C2, as stated, has crossover return false when a series has insufficient history.
  On a series of one observation the read of \<open>series[-2]\<close> raises IndexError instead.
\<close>

theorem crossover_insufficient_history_counterexample:
  "crossover [Some 1] [Some 2] = Inl IndexError"
  by (simp add: crossover_def getitem_def)

text \<open>
  Claim C2, amended: when both series have at least two observations, crossover returns
  \<open>True\<close> if and only if \<open>A[-2] < B[-2]\<close> and \<open>A[-1] > B[-1]\<close>, and otherwise returns
  \<open>None\<close> (not true: on ties, on NaN, and when the order is the other way round); with
  fewer than two observations in either series it raises IndexError; and
  \<open>crossover(A, B)\<close> and \<open>crossover(B, A)\<close> are never both true.
\<close>

theorem crossover_last_two:
  "crossover A B =
     (if length A < 2 \<or> length B < 2 then Inl IndexError
      else if cell_lt (A ! (length A - 2)) (B ! (length B - 2)) \<and> cell_gt (last A) (last B)
           then Inr (Some True) else Inr None)
   \<and> \<not> (crossover A B = Inr (Some True) \<and> crossover B A = Inr (Some True))"
proof -
  have eq: "crossover X Y =
     (if length X < 2 \<or> length Y < 2 then Inl IndexError
      else if cell_lt (X ! (length X - 2)) (Y ! (length Y - 2)) \<and> cell_gt (last X) (last Y)
           then Inr (Some True) else Inr None)" for X Y
    by (auto simp: crossover_def getitem_neg2 getitem_neg1)
  have asym: "\<not> (cell_lt a b \<and> cell_lt b a)" for a b
    by (auto simp: cell_lt_def split: option.splits)
  have "\<not> (crossover A B = Inr (Some True) \<and> crossover B A = Inr (Some True))"
    using asym[of "last B" "last A"] by (auto simp: eq cell_gt_def split: if_splits)
  with eq[of A B] show ?thesis by blast
qed

theorem crossover_last_two_witness:
  "crossover [Some 5, Some 1, Some 3] [Some 0, Some 2, Some 2] = Inr (Some True)
   \<and> crossover [Some 0, Some 2, Some 2] [Some 5, Some 1, Some 3] = Inr None
   \<and> crossover [Some 1, Some 2] [Some 1, Some 1] = Inr None"
  using crossover_last_two[of "[Some 5, Some 1, Some 3]" "[Some 0, Some 2, Some 2]"]
        crossover_last_two[of "[Some 0, Some 2, Some 2]" "[Some 5, Some 1, Some 3]"]
        crossover_last_two[of "[Some 1, Some 2]" "[Some 1, Some 1]"]
  by (simp add: cell_lt_def cell_gt_def)

subsection \<open>Max drawdown\<close>


lemma length_accumulate_from [simp]: "length (accumulate_from m xs) = length xs"
  by (induction xs arbitrary: m) auto

lemma length_maximum_accumulate [simp]: "length (maximum_accumulate xs) = length xs"
  by (cases xs) (auto simp: maximum_accumulate_def)




lemma length_drawdown [simp]: "length (drawdown caps) = length caps"
  by (simp add: drawdown_def)










subsection \<open>Series\<close>

lemma length_shift [simp]: "length (shift xs) = length xs"
  by (cases xs rule: rev_cases) (auto simp: shift_def)

lemma shift_nth: "t < length xs \<Longrightarrow> shift xs ! t = (if t = 0 then None else xs ! (t - 1))"
  by (cases t) (auto simp: shift_def nth_butlast)

lemma length_diff [simp]: "length (diff xs) = length xs"
  by (simp add: diff_def)

lemma length_ffill_from [simp]: "length (ffill_from prev xs) = length xs"
  by (induction prev xs rule: ffill_from.induct) auto

lemma length_fillna [simp]: "length (fillna v xs) = length xs"
  by (simp add: fillna_def)

lemma length_cumsum_from [simp]: "length (cumsum_from acc xs) = length xs"
  by (induction acc xs rule: cumsum_from.induct) auto

lemma length_position [simp]: "length (position acts) = length acts"
  by (simp add: position_def ffill_def)

lemma length_times [simp]: "length (times xs k) = length xs"
  by (simp add: times_def)

lemma ffill_from_nth:
  "t < length xs \<Longrightarrow>
   ffill_from prev xs ! t = (case filter (\<lambda>a. a \<noteq> None) (take (Suc t) xs) of [] \<Rightarrow> prev | y # ys \<Rightarrow> last (y # ys))"
proof (induction prev xs arbitrary: t rule: ffill_from.induct)
  case (1 prev)
  then show ?case by simp
next
  case (2 prev xs)
  then show ?case by (cases t) auto
next
  case (3 prev v xs)
  show ?case
  proof (cases t)
    case 0
    then show ?thesis by simp
  next
    case (Suc k)
    with 3 have "ffill_from (Some v) xs ! k =
      (case filter (\<lambda>a. a \<noteq> None) (take (Suc k) xs) of [] \<Rightarrow> Some v | y # ys \<Rightarrow> last (y # ys))"
      by simp
    with Suc show ?thesis by (simp split: list.splits)
  qed
qed

lemma position_nth:
  assumes "t < length acts"
  shows "position acts ! t =
         (case filter (\<lambda>a. a \<noteq> None) (take t acts) of [] \<Rightarrow> Some 0 | y # ys \<Rightarrow> last (y # ys))"
proof (cases t)
  case 0
  with assms show ?thesis by (simp add: position_def fillna_def shift_nth ffill_def)
next
  case (Suc k)
  with assms have k: "k < length acts" by simp
  have nn: "last (y # ys) \<noteq> None" if "filter (\<lambda>a. a \<noteq> None) (take (Suc k) acts) = y # ys" for y ys
  proof -
    have "last (y # ys) \<in> set (filter (\<lambda>a. a \<noteq> None) (take (Suc k) acts))"
      unfolding that by (rule last_in_set) simp
    then show ?thesis by simp
  qed
  from assms Suc show ?thesis
    using nn by (auto simp: position_def fillna_def shift_nth ffill_def ffill_from_nth[OF k] split: list.splits option.splits)
qed


subsection \<open>Tables and their settlement\<close>

lemma get_col_set_col [simp]:
  "get_col (set_col df k c) k' = (if k' = k then Some c else get_col df k')"
  by (simp add: get_col_def set_col_def update_conv')

lemma findex_set_col [simp]: "findex (set_col df k c) = findex df"
  by (simp add: set_col_def)

lemma nrows_set_col [simp]: "nrows (set_col df k c) = nrows df"
  by (simp add: nrows_def)

lemma keys_set_col [simp]: "fst ` set (cols (set_col df k c)) = insert k (fst ` set (cols df))"
  by (simp add: set_col_def dom_update)

lemma set_col_twice [simp]: "set_col (set_col df k c) k c' = set_col df k c'"
  by (simp add: set_col_def)



lemma upd_all_Nil [simp]: "upd_all [] df = df"
  by (simp add: upd_all_def)

lemma upd_all_Cons [simp]: "upd_all ((k, c) # us) df = upd_all us (set_col df k c)"
  by (simp add: upd_all_def)

lemma upd_all_append [simp]: "upd_all (us @ vs) df = upd_all vs (upd_all us df)"
  by (simp add: upd_all_def)

lemma findex_upd_all [simp]: "findex (upd_all us df) = findex df"
  by (induction us arbitrary: df) auto

lemma nrows_upd_all [simp]: "nrows (upd_all us df) = nrows df"
  by (simp add: nrows_def)






lemma andthen_None:
  "andthen f g df = (None, df') \<longleftrightarrow> (\<exists>d1. f df = (None, d1) \<and> g d1 = (None, df'))"
  by (cases "f df") (auto simp: andthen_def split: option.splits)






















subsection \<open>The settlement on a table of four bars\<close>







subsection \<open>The indicator registry\<close>



subsection \<open>The signal engine\<close>

lemma sig_loop_appends:
  "sig_loop C n d js acc s = (Inr acts, s') \<Longrightarrow> \<exists>ys. acts = acc @ ys \<and> length ys = length js"
proof (induction js arbitrary: acc s)
  case Nil
  then show ?case by simp
next
  case (Cons i js)
  from Cons.prems obtain u s1 a u' s2 where
    rest: "sig_loop C n d js (acc @ [a]) (s2\<lparr>attrs := u'\<rparr>) = (Inr acts, s')"
    by (auto split: prod.splits sum.splits)
  from Cons.IH[OF rest] show ?case by auto
qed

text \<open>
  Claim C3: for a table of at least two bars, the Action sequence that \<open>_sig\<close> returns
  has the length of the table, and its entries 0 and 1 are undefined.
\<close>

theorem sig_length:
  assumes "sig C full_len s = (Inr acts, s')" and "2 \<le> nrows (data s)"
  shows "length acts = nrows (data s) \<and> acts ! 0 = None \<and> acts ! 1 = None"
proof -
  from assms(1) sig_loop_appends[of C full_len "data s" "[2..<nrows (data s)]" "[None, None]" s acts s']
  obtain ys where "acts = [None, None] @ ys" "length ys = nrows (data s) - 2"
    by (auto simp: sig_def)
  with assms(2) show ?thesis by simp
qed

lemma ind_error_keeps_state: "ind n name res s = (Inl e, s') \<Longrightarrow> s' = s"
  by (auto simp: ind_def split: sum.splits option.splits if_splits)

lemma frame_of_array_rows:
  "frame_of_array a idx name = Inr f \<Longrightarrow> hd (shape a) = index_len idx"
  by (auto simp: frame_of_array_def split: list.splits if_splits)

text \<open>
  While the visible data is shorter or longer than the table the strategy was made from,
  \<open>ind\<close> records nothing, and what it returns does not depend on the length of that table.
\<close>

lemma ind_prefix_state:
  "nrows (data s) \<noteq> n \<Longrightarrow> ind n name res s = (r, s') \<Longrightarrow> s' = s"
  by (auto simp: ind_def nrows_def split: sum.splits option.splits if_splits dest: frame_of_array_rows)

lemma ind_prefix_value:
  assumes "ind n1 name res s = (Inr a1, s1)" and "ind n2 name res s = (Inr a2, s2)"
  shows "a1 = a2"
  using assms
  by (auto simp: ind_def split: sum.splits option.splits if_splits)

lemma exec_prefix_state:
  "nrows (data s) \<noteq> n \<Longrightarrow> exec n prog s = (r, s') \<Longrightarrow> s' = s"
proof (induction prog arbitrary: r s')
  case (Ind name res k)
  show ?case
  proof (cases "ind n name res s")
    case (Pair o1 s1)
    with Ind.prems(1) have s1: "s1 = s" by (auto dest: ind_prefix_state)
    show ?thesis
    proof (cases o1)
      case (Inl e)
      with Pair Ind.prems s1 show ?thesis by simp
    next
      case (Inr a)
      with Pair Ind.prems s1 have "exec n (k a) s = (r, s')" by simp
      with Ind.IH[of "k a"] Ind.prems(1) show ?thesis by blast
    qed
  qed
next
  case (Data k)
  from Data.prems have "exec n (k (data s)) s = (r, s')" by simp
  with Data.IH[of "k (data s)"] Data.prems(1) show ?case by blast
qed auto

lemma exec_prefix_value:
  assumes "nrows (data s) \<noteq> n1" and "nrows (data s) \<noteq> n2"
    and "exec n1 prog s = (Inr x1, s1)" and "exec n2 prog s = (Inr x2, s2)"
  shows "x1 = x2"
  using assms
proof (induction prog arbitrary: x1 x2 s1 s2)
  case (Ind name res k)
  obtain o1 t1 where i1: "ind n1 name res s = (o1, t1)" by (cases "ind n1 name res s")
  obtain o2 t2 where i2: "ind n2 name res s = (o2, t2)" by (cases "ind n2 name res s")
  from i1 i2 Ind.prems(1,2) have t: "t1 = s" "t2 = s" by (auto dest: ind_prefix_state)
  from i1 Ind.prems(3) obtain a1 where o1: "o1 = Inr a1" by (cases o1) auto
  from i2 Ind.prems(4) obtain a2 where o2: "o2 = Inr a2" by (cases o2) auto
  from i1 i2 o1 o2 have a: "a1 = a2" by (auto dest: ind_prefix_value)
  from i1 o1 t Ind.prems(3) have e1: "exec n1 (k a1) s = (Inr x1, s1)" by simp
  from i2 o2 t a Ind.prems(4) have e2: "exec n2 (k a1) s = (Inr x2, s2)" by simp
  from Ind.IH[of "k a1", OF _ Ind.prems(1,2) e1 e2] show ?case by blast
next
  case (Data k)
  from Data.prems have "exec n1 (k (data s)) s = (Inr x1, s1)" "exec n2 (k (data s)) s = (Inr x2, s2)"
    by simp_all
  with Data.IH[of "k (data s)", OF _ Data.prems(1,2)] show ?case by blast
qed auto

lemma index_len_take_index [simp]: "index_len (take_index k idx) = min k (index_len idx)"
  by (cases idx) auto

lemma nrows_iloc_upto [simp]: "nrows (iloc_upto k df) = min k (nrows df)"
  by (simp add: nrows_def iloc_upto_def)

lemma take_index_twice: "j \<le> k \<Longrightarrow> take_index j (take_index k idx) = take_index j idx"
  by (cases idx) (auto simp: min_def)

lemma take_col_twice: "j \<le> k \<Longrightarrow> take_col j (take_col k c) = take_col j c"
  by (cases c) (auto simp: min_def)

lemma iloc_upto_twice: "j \<le> k \<Longrightarrow> iloc_upto j (iloc_upto k df) = iloc_upto j df"
  by (simp add: iloc_upto_def take_index_twice take_col_twice case_prod_unfold comp_def)

lemma prefix_agree:
  assumes "iloc_upto k d1 = iloc_upto k d2" and "j \<le> k"
  shows "iloc_upto j d1 = iloc_upto j d2"
proof -
  have "iloc_upto j (iloc_upto k d1) = iloc_upto j (iloc_upto k d2)"
    using assms(1) by simp
  with assms(2) show ?thesis by (simp add: iloc_upto_twice)
qed

lemma upt_split: "i \<le> j \<Longrightarrow> j \<le> k \<Longrightarrow> [i..<k] = [i..<j] @ [j..<k]"
  using upt_add_eq_append[of i j "k - j"] by simp

lemma sig_loop_append:
  "sig_loop C n d (xs @ ys) acc s =
     (case sig_loop C n d xs acc s of
        (Inl e, s1) \<Rightarrow> (Inl e, s1)
      | (Inr acc1, s1) \<Rightarrow> sig_loop C n d ys acc1 s1)"
  by (induction xs arbitrary: acc s) (auto split: prod.splits sum.splits)

lemma sig_loop_agree:
  assumes agree: "iloc_upto (Suc t) d1 = iloc_upto (Suc t) d2"
    and t: "t < nrows d1" "t < nrows d2" "t < n1" "t < n2"
  shows "\<forall>i\<in>set js. i < t \<Longrightarrow> indicators s1 = indicators s2 \<Longrightarrow> attrs s1 = attrs s2 \<Longrightarrow>
         sig_loop C n1 d1 js acc s1 = (Inr r1, s1') \<Longrightarrow>
         sig_loop C n2 d2 js acc s2 = (Inr r2, s2') \<Longrightarrow> r1 = r2"
proof (induction js arbitrary: acc s1 s2)
  case Nil
  then show ?case by simp
next
  case (Cons i js)
  from Cons.prems(1) have i: "i < t" by simp
  define st where "st = s1\<lparr>data := iloc_upto (Suc i) d1\<rparr>"
  have st2: "s2\<lparr>data := iloc_upto (Suc i) d2\<rparr> = st"
    using prefix_agree[OF agree, of "Suc i"] i Cons.prems(2,3) by (simp add: st_def)
  have nr: "nrows (data st) \<noteq> n1" "nrows (data st) \<noteq> n2"
    using i t by (simp_all add: st_def)
  have at: "attrs s2 = attrs s1" using Cons.prems(3) by simp
  from Cons.prems(4) obtain u1 sa a1 w1 sb where
    e1: "exec n1 (set_indicators C (attrs s1)) st = (Inr u1, sa)"
    and f1: "exec n1 (next' C u1) (sa\<lparr>attrs := u1\<rparr>) = (Inr (a1, w1), sb)"
    and g1: "sig_loop C n1 d1 js (acc @ [a1]) (sb\<lparr>attrs := w1\<rparr>) = (Inr r1, s1')"
    by (auto simp: st_def split: prod.splits sum.splits)
  from Cons.prems(5) obtain u2 sc a2 w2 sd where
    e2: "exec n2 (set_indicators C (attrs s1)) st = (Inr u2, sc)"
    and f2: "exec n2 (next' C u2) (sc\<lparr>attrs := u2\<rparr>) = (Inr (a2, w2), sd)"
    and g2: "sig_loop C n2 d2 js (acc @ [a2]) (sd\<lparr>attrs := w2\<rparr>) = (Inr r2, s2')"
    by (auto simp: st2 at split: prod.splits sum.splits)
  have u: "u1 = u2" by (rule exec_prefix_value[OF nr e1 e2])
  have sa: "sa = st" "sc = st"
    using exec_prefix_state[OF nr(1) e1] exec_prefix_state[OF nr(2) e2] by simp_all
  have nr': "nrows (data (st\<lparr>attrs := u1\<rparr>)) \<noteq> n1" "nrows (data (st\<lparr>attrs := u1\<rparr>)) \<noteq> n2"
    using nr by simp_all
  from f1 f2 have f1': "exec n1 (next' C u1) (st\<lparr>attrs := u1\<rparr>) = (Inr (a1, w1), sb)"
    and f2': "exec n2 (next' C u1) (st\<lparr>attrs := u1\<rparr>) = (Inr (a2, w2), sd)"
    by (simp_all add: sa u)
  have aw: "(a1, w1) = (a2, w2)" by (rule exec_prefix_value[OF nr' f1' f2'])
  have sb: "sb = st\<lparr>attrs := u1\<rparr>" "sd = st\<lparr>attrs := u1\<rparr>"
    using exec_prefix_state[OF nr'(1) f1'] exec_prefix_state[OF nr'(2) f2'] by simp_all
  from Cons.prems(1) have js: "\<forall>i\<in>set js. i < t" by simp
  from g2 aw sb have g2': "sig_loop C n2 d2 js (acc @ [a1]) (sb\<lparr>attrs := w1\<rparr>) = (Inr r2, s2')"
    by simp
  from Cons.IH[OF js _ _ g1 g2'] show ?case by simp
qed

lemma sig_prefix:
  assumes s1: "sig C n1 s1 = (Inr acts1, s1')" and s2: "sig C n2 s2 = (Inr acts2, s2')"
    and agree: "iloc_upto (Suc t) (data s1) = iloc_upto (Suc t) (data s2)"
    and same: "indicators s1 = indicators s2" "attrs s1 = attrs s2"
    and t: "t < nrows (data s1)" "t < nrows (data s2)" "t < n1" "t < n2"
  shows "take t acts1 = take t acts2 \<and> t < length acts1 \<and> t < length acts2"
proof (cases "t \<le> 2")
  case True
  from s1 sig_loop_appends[of C n1 "data s1" "[2..<nrows (data s1)]" "[None, None]" s1 acts1 s1']
  obtain ys1 where a1: "acts1 = [None, None] @ ys1" "length ys1 = nrows (data s1) - 2"
    by (auto simp: sig_def)
  from s2 sig_loop_appends[of C n2 "data s2" "[2..<nrows (data s2)]" "[None, None]" s2 acts2 s2']
  obtain ys2 where a2: "acts2 = [None, None] @ ys2" "length ys2 = nrows (data s2) - 2"
    by (auto simp: sig_def)
  from True have "t = 0 \<or> t = 1 \<or> t = 2" by auto
  with a1 a2 t show ?thesis by (auto simp: numeral_2_eq_2)
next
  case False
  then have t2: "2 \<le> t" by simp
  have sp1: "[2..<nrows (data s1)] = [2..<t] @ [t..<nrows (data s1)]"
    using t2 t(1) by (intro upt_split) simp_all
  have sp2: "[2..<nrows (data s2)] = [2..<t] @ [t..<nrows (data s2)]"
    using t2 t(2) by (intro upt_split) simp_all
  from s1 obtain m1 sa where
    h1: "sig_loop C n1 (data s1) [2..<t] [None, None] s1 = (Inr m1, sa)"
    and r1: "sig_loop C n1 (data s1) [t..<nrows (data s1)] m1 sa = (Inr acts1, s1')"
    unfolding sig_def sp1 sig_loop_append by (auto split: prod.splits sum.splits)
  from s2 obtain m2 sb where
    h2: "sig_loop C n2 (data s2) [2..<t] [None, None] s2 = (Inr m2, sb)"
    and r2: "sig_loop C n2 (data s2) [t..<nrows (data s2)] m2 sb = (Inr acts2, s2')"
    unfolding sig_def sp2 sig_loop_append by (auto split: prod.splits sum.splits)
  have m: "m1 = m2"
    by (rule sig_loop_agree[OF agree t _ same h1 h2]) simp
  from sig_loop_appends[OF h1] t2 have lm: "length m1 = t" by auto
  from sig_loop_appends[OF r1] obtain z1 where z1: "acts1 = m1 @ z1" "length z1 = nrows (data s1) - t"
    by auto
  from sig_loop_appends[OF r2] obtain z2 where z2: "acts2 = m2 @ z2" "length z2 = nrows (data s2) - t"
    by auto
  from z1 z2 m lm t show ?thesis by auto
qed

lemma position_prefix:
  assumes "take t xs = take t ys" "j < t" "t < length xs" "t < length ys"
  shows "position xs ! j = position ys ! j"
proof -
  have "take j xs = take j (take t xs)" "take j ys = take j (take t ys)"
    using assms(2) by (simp_all add: min_def)
  with assms(1) have "take j xs = take j ys" by simp
  with position_nth[of j xs] position_nth[of j ys] assms show ?thesis by simp
qed

text \<open>
  Claim C1: two runs of the signal engine of one strategy, on tables that agree on the
  bars \<open>[0, t]\<close> (both longer than \<open>t\<close>) and from the same state of the strategy, give
  the same Action and the same Position at every index below \<open>t\<close>: what the bars after
  \<open>t\<close> hold, and how many there are, does not change them.
\<close>

theorem no_lookahead:
  assumes "sig C n1 s1 = (Inr acts1, s1')" and "sig C n2 s2 = (Inr acts2, s2')"
    and "iloc_upto (Suc t) (data s1) = iloc_upto (Suc t) (data s2)"
    and "indicators s1 = indicators s2" and "attrs s1 = attrs s2"
    and "t < nrows (data s1)" and "t < nrows (data s2)" and "t < n1" and "t < n2"
  shows "\<forall>j<t. acts1 ! j = acts2 ! j \<and> position acts1 ! j = position acts2 ! j"
proof (intro allI impI)
  fix j assume j: "j < t"
  from sig_prefix[OF assms] have tk: "take t acts1 = take t acts2"
    and l: "t < length acts1" "t < length acts2" by simp_all
  have "acts1 ! j = take t acts1 ! j" "acts2 ! j = take t acts2 ! j"
    using j by simp_all
  with tk have "acts1 ! j = acts2 ! j" by simp
  moreover have "position acts1 ! j = position acts2 ! j"
    by (rule position_prefix[OF tk j l])
  ultimately show "acts1 ! j = acts2 ! j \<and> position acts1 ! j = position acts2 ! j" ..
qed

subsection \<open>What a settlement leaves as it is\<close>


lemma run_steps_keys:
  "run_steps steps df = (None, df') \<Longrightarrow> fst ` set (cols df') = fst ` set steps \<union> fst ` set (cols df)"
proof (induction steps arbitrary: df)
  case Nil
  then show ?case by simp
next
  case (Cons st steps)
  obtain name f where st: "st = (name, f)" by (cases st)
  from Cons.prems st obtain c where "f df = Inr c" and "run_steps steps (set_col df name c) = (None, df')"
    by (cases "f df") auto
  from Cons.IH[OF this(2)] st show ?case by auto
qed


lemma keys_reindex_empty [simp]: "fst ` set (cols (reindex_empty idx df)) = fst ` set (cols df)"
  by (force simp: reindex_empty_def)

lemma assign_list_keys:
  assumes "assign_list name vals df = (None, df')"
  shows "fst ` set (cols df') = insert name (fst ` set (cols df))"
proof -
  from assms consider "df' = set_col (reindex_empty (RangeIndex (length vals)) df) name (FloatCol vals)"
    | "df' = set_col df name (FloatCol vals)"
    by (auto simp: assign_list_def split: if_splits)
  then show ?thesis by cases simp_all
qed


lemma assign_series_keys:
  assumes "assign_series name idx vals df = (e, df')"
  shows "fst ` set (cols df) \<subseteq> fst ` set (cols df')"
proof -
  from assms consider c where "df' = set_col (reindex_empty idx df) name c"
    | c where "df' = set_col df name c" | "df' = df"
    by (auto simp: assign_series_def split: if_splits)
  then show ?thesis by cases (simp_all add: subset_insertI)
qed


lemma assign_columns_keys:
  "assign_columns idx cs df = (e, df') \<Longrightarrow> fst ` set (cols df) \<subseteq> fst ` set (cols df')"
proof (induction cs arbitrary: df)
  case Nil
  then show ?case by simp
next
  case (Cons a cs)
  obtain n c where a: "a = (n, c)" by (cases a)
  obtain e1 d1 where s1: "assign_series n idx (cells c) df = (e1, d1)"
    by (cases "assign_series n idx (cells c) df")
  note k1 = assign_series_keys[OF s1]
  show ?case
  proof (cases e1)
    case (Some x)
    with Cons.prems(1) a s1 k1 show ?thesis by (auto simp: andthen_def)
  next
    case None
    with Cons.prems(1) a s1 have r: "assign_columns idx cs d1 = (e, df')" by (simp add: andthen_def)
    from Cons.IH[OF r] k1 show ?thesis by blast
  qed
qed


lemma assign_indicators_keys:
  "assign_indicators inds df = (e, df') \<Longrightarrow> fst ` set (cols df) \<subseteq> fst ` set (cols df')"
proof (induction inds arbitrary: df)
  case Nil
  then show ?case by simp
next
  case (Cons f fs)
  obtain e1 d1 where s1: "assign_columns (findex f) (cols f) df = (e1, d1)"
    by (cases "assign_columns (findex f) (cols f) df")
  note k1 = assign_columns_keys[OF s1]
  show ?case
  proof (cases e1)
    case (Some x)
    with Cons.prems(1) s1 k1 show ?thesis by (auto simp: andthen_def)
  next
    case None
    with Cons.prems(1) s1 have r: "assign_indicators fs d1 = (e, df')" by (simp add: andthen_def)
    from Cons.IH[OF r] k1 show ?thesis by blast
  qed
qed



lemma settle_rest_keys:
  assumes "settle_rest p acts inds df = (None, df')"
  shows "insert ''signal'' (fst ` set (ledger_steps p)) \<subseteq> fst ` set (cols df')"
proof -
  from assms obtain d1 d2 where s1: "assign_list ''signal'' acts df = (None, d1)"
    and s2: "assign_indicators inds d1 = (None, d2)"
    and s3: "run_steps (ledger_steps p) d2 = (None, df')"
    by (auto simp: settle_rest_def andthen_None)
  from assign_list_keys[OF s1] assign_indicators_keys[OF s2] run_steps_keys[OF s3]
  show ?thesis by auto
qed

subsection \<open>The broker on the store\<close>





subsection \<open>The engine on tables of five and six bars\<close>

lemmas engine_defs = sig_def CloseOverOpen_def declare_close_open_def cross_step_def crossover_def
  getitem_def cell_lt_def cell_gt_def ind_def iloc_upto_def array1_def to_list_def argmax_def
  frame_of_array_def transpose_array_def long_def short_def day_def bars_def
  get_col_def attr_def nrows_def sbind_def

lemmas upt_unfold = upt_rec[of 0] upt_rec[of 1] upt_rec[of 2] upt_rec[of 3] upt_rec[of 4]
  upt_rec[of 5] upt_rec[of 6]

lemma sig_five_bars:
  "fst (sig CloseOverOpen 5 \<lparr>data = bars [100, 101, 100, 100, 107] [100, 100, 105, 110, 105],
                            indicators = [], attrs = ([], [])\<rparr>)
   = Inr [None, None, Some 1, None, Some (- 1)]"
  by (simp add: engine_defs upt_unfold)

lemma sig_six_bars:
  "fst (sig CloseOverOpen 6 \<lparr>data = bars [100, 101, 100, 100, 90, 95] [100, 100, 105, 110, 120, 80],
                            indicators = [], attrs = ([], [])\<rparr>)
   = Inr [None, None, Some 1, None, None, Some (- 1)]"
  by (simp add: engine_defs upt_unfold)

theorem sig_length_witness:
  "length [None, None, Some 1, None, Some (- 1) :: real option]
     = nrows (bars [100, 101, 100, 100, 107] [100, 100, 105, 110, 105])
   \<and> fst (sig CloseOverOpen 5 \<lparr>data = bars [100, 101, 100, 100, 107] [100, 100, 105, 110, 105],
                            indicators = [], attrs = ([], [])\<rparr>)
     = Inr [None, None, Some 1, None, Some (- 1)]"
proof -
  let ?s = "\<lparr>data = bars [100, 101, 100, 100, 107] [100, 100, 105, 110, 105],
             indicators = [], attrs = ([], [])\<rparr> :: (cell list \<times> cell list) strategy_state"
  have r: "sig CloseOverOpen 5 ?s = (Inr [None, None, Some 1, None, Some (- 1)], snd (sig CloseOverOpen 5 ?s))"
    using sig_five_bars by (simp add: prod_eq_iff)
  have n: "2 \<le> nrows (data ?s)" by (simp add: bars_def nrows_def)
  from sig_length[OF r n] sig_five_bars show ?thesis by simp
qed

theorem no_lookahead_witness:
  "\<exists>acts1 acts2.
     fst (sig CloseOverOpen 5 \<lparr>data = bars [100, 101, 100, 100, 107] [100, 100, 105, 110, 105],
                              indicators = [], attrs = ([], [])\<rparr>) = Inr acts1
   \<and> fst (sig CloseOverOpen 6 \<lparr>data = bars [100, 101, 100, 100, 90, 95] [100, 100, 105, 110, 120, 80],
                              indicators = [], attrs = ([], [])\<rparr>) = Inr acts2
   \<and> acts1 ! 2 = acts2 ! 2 \<and> position acts1 ! 2 = position acts2 ! 2
   \<and> acts1 ! 4 \<noteq> acts2 ! 4"
proof -
  let ?s1 = "\<lparr>data = bars [100, 101, 100, 100, 107] [100, 100, 105, 110, 105],
              indicators = [], attrs = ([], [])\<rparr> :: (cell list \<times> cell list) strategy_state"
  let ?s2 = "\<lparr>data = bars [100, 101, 100, 100, 90, 95] [100, 100, 105, 110, 120, 80],
              indicators = [], attrs = ([], [])\<rparr> :: (cell list \<times> cell list) strategy_state"
  let ?a1 = "[None, None, Some 1, None, Some (- 1)] :: cell list"
  let ?a2 = "[None, None, Some 1, None, None, Some (- 1)] :: cell list"
  have r1: "sig CloseOverOpen 5 ?s1 = (Inr ?a1, snd (sig CloseOverOpen 5 ?s1))"
    using sig_five_bars by (simp add: prod_eq_iff)
  have r2: "sig CloseOverOpen 6 ?s2 = (Inr ?a2, snd (sig CloseOverOpen 6 ?s2))"
    using sig_six_bars by (simp add: prod_eq_iff)
  have agree: "iloc_upto (Suc 3) (data ?s1) = iloc_upto (Suc 3) (data ?s2)"
    by (simp add: iloc_upto_def bars_def upt_unfold)
  have same: "indicators ?s1 = indicators ?s2" "attrs ?s1 = attrs ?s2" by simp_all
  have t: "3 < nrows (data ?s1)" "3 < nrows (data ?s2)" "(3::nat) < 5" "(3::nat) < 6"
    by (simp_all add: bars_def nrows_def)
  from no_lookahead[OF r1 r2 agree same t]
  have "?a1 ! 2 = ?a2 ! 2 \<and> position ?a1 ! 2 = position ?a2 ! 2" by simp
  moreover have "?a1 ! 4 \<noteq> ?a2 ! 4" by simp
  ultimately show ?thesis using sig_five_bars sig_six_bars by blast
qed


subsection \<open>The first bar of a run\<close>






subsection \<open>What a run changes in the store\<close>



lemma nrows_sort_index [simp]: "nrows (sort_index ts df) = length ts"
  by (simp add: nrows_def sort_index_def Let_def)



subsection \<open>A run on a table of five bars\<close>










end
